theory Spec2Isabelle
  imports Complex_Main
begin

section \<open>Data model of \<^verbatim>\<open>lib/animation.js\<close>\<close>

subsection \<open>JavaScript numbers\<close>

text \<open>
  The times of an Animation are JavaScript numbers: IEEE 754 binary64 values. A finite one
  is modelled by the real number it stands for (the sign of zero is not kept: no operation
  used here tells the two zeros apart); the other values are the two infinities and NaN.

  Arithmetic computes the exact result and rounds it to the nearest binary64 value, ties to
  the even significand: \<open>round_at k v\<close> rounds \<open>v\<close> to a multiple of \<open>2 powi k\<close>, and
  \<open>ulp_exponent v\<close> is the \<open>k\<close> of the binary64 values next to \<open>v\<close> (53 significant bits,
  exponents from \<open>- 1022\<close>, subnormal values below). A rounded result of magnitude \<open>2 ^ 1024\<close>
  or more is an infinity.
\<close>

datatype number = Finite real | PosInf | NegInf | NaN

definition round_half_even :: "real \<Rightarrow> int" where
  "round_half_even q =
     (let n = \<lfloor>q\<rfloor>; r = q - of_int n
      in if r < 1 / 2 then n else if 1 / 2 < r then n + 1 else if even n then n else n + 1)"

definition ulp_exponent :: "real \<Rightarrow> int" where
  "ulp_exponent v = max \<lfloor>log 2 \<bar>v\<bar>\<rfloor> (- 1022) - 52"

definition round_at :: "int \<Rightarrow> real \<Rightarrow> number" where
  "round_at k v =
     (let u = 2 powi k;
          w = of_int (round_half_even (v / u)) * u
      in if 2 ^ 1024 \<le> w then PosInf else if w \<le> - (2 ^ 1024) then NegInf else Finite w)"

definition binary64 :: "real \<Rightarrow> number" where
  "binary64 v = (if v = 0 then Finite 0 else round_at (ulp_exponent v) v)"

text \<open>\<^verbatim>\<open>a + b\<close>, \<^verbatim>\<open>- a\<close>, \<^verbatim>\<open>a - b\<close>, \<^verbatim>\<open>a > b\<close> and \<^verbatim>\<open>a <= b\<close> on numbers.\<close>

fun num_add :: "number \<Rightarrow> number \<Rightarrow> number" where
  "num_add (Finite a) (Finite b) = binary64 (a + b)"
| "num_add NaN b = NaN"
| "num_add a NaN = NaN"
| "num_add PosInf NegInf = NaN"
| "num_add NegInf PosInf = NaN"
| "num_add PosInf b = PosInf"
| "num_add a PosInf = PosInf"
| "num_add NegInf b = NegInf"
| "num_add a NegInf = NegInf"

fun num_neg :: "number \<Rightarrow> number" where
  "num_neg (Finite a) = Finite (- a)"
| "num_neg PosInf = NegInf"
| "num_neg NegInf = PosInf"
| "num_neg NaN = NaN"

definition num_sub :: "number \<Rightarrow> number \<Rightarrow> number" where
  "num_sub a b = num_add a (num_neg b)"

fun num_gt :: "number \<Rightarrow> number \<Rightarrow> bool" where
  "num_gt (Finite a) (Finite b) = (b < a)"
| "num_gt NaN b = False"
| "num_gt a NaN = False"
| "num_gt a PosInf = False"
| "num_gt NegInf b = False"
| "num_gt PosInf b = True"
| "num_gt a NegInf = True"

fun num_le :: "number \<Rightarrow> number \<Rightarrow> bool" where
  "num_le (Finite a) (Finite b) = (a \<le> b)"
| "num_le NaN b = False"
| "num_le a NaN = False"
| "num_le a PosInf = True"
| "num_le NegInf b = True"
| "num_le PosInf b = False"
| "num_le a NegInf = False"

text \<open>
  A whole number as a JavaScript number, and the numbers among the values of the model:
  a finite one has to be a binary64 value, which rounding leaves as it is.
\<close>

definition whole :: "int \<Rightarrow> number" where
  "whole n = Finite (of_int n)"

fun is_number :: "number \<Rightarrow> bool" where
  "is_number (Finite v) = (binary64 v = Finite v)"
| "is_number a = True"


subsection \<open>Animations\<close>

text \<open>
  An Animation object holds five numbers and a reference to an array of frame objects.
  Objects and arrays live in a store indexed by references: \<^verbatim>\<open>copy\<close> makes a second
  object that holds the same array, and the flip and rotate methods write into that array.
  A reference below \<open>next_obj\<close> (\<open>next_ref\<close> for arrays) is in use; allocation takes the
  next one.

  The body of a method other than \<^verbatim>\<open>copy\<close> is a function of the store and of the fields of
  its receiver \<^verbatim>\<open>this\<close>, and returns the fields as the method leaves them; \<open>put\<close> is the
  write of those fields to the receiver.

  \<^verbatim>\<open>elapsedMillis\<close> and the durations are JavaScript numbers; durations may be zero or
  negative, as nothing in the source checks them. Frame indices are array indices, modelled
  as \<open>nat\<close>. Images are opaque: \<open>'img\<close>.
\<close>

datatype error = TypeError

record 'img frame_obj =
  img :: 'img
  time :: number

type_synonym ref = nat

record animation =
  frames :: ref
  frame :: nat
  elapsedMillis :: number
  repeatAt :: nat
  width :: int
  height :: int

record 'img heap =
  arrays :: "ref \<Rightarrow> 'img frame_obj list"
  next_ref :: ref
  objects :: "ref \<Rightarrow> animation"
  next_obj :: ref

definition put :: "'img heap \<Rightarrow> ref \<Rightarrow> animation \<Rightarrow> 'img heap" where
  "put h r a = h\<lparr>objects := (objects h)(r := a)\<rparr>"

text \<open>
  \<^verbatim>\<open>function Animation()\<close>, called with \<^verbatim>\<open>new\<close>: a fresh object, whose \<^verbatim>\<open>frames\<close> is a
  fresh empty array. The result is the reference to the object.
\<close>

definition Animation :: "'img heap \<Rightarrow> 'img heap \<times> ref" where
  "Animation h =
     (h\<lparr>arrays := (arrays h)(next_ref h := []), next_ref := Suc (next_ref h),
        objects := (objects h)(next_obj h :=
          \<lparr>frames = next_ref h, frame = 0, elapsedMillis = whole 0, repeatAt = 0,
           width = 0, height = 0\<rparr>),
        next_obj := Suc (next_obj h)\<rparr>,
      next_obj h)"

text \<open>
  \<^verbatim>\<open>Animation.prototype.copy\<close>: a new object, to whose fields those of \<^verbatim>\<open>this\<close> are then
  assigned one by one; \<^verbatim>\<open>this\<close> is the reference to the receiver.
\<close>

definition copy :: "'img heap \<Rightarrow> ref \<Rightarrow> 'img heap \<times> ref" where
  "copy h this =
     (case Animation h of
        (h', anim) \<Rightarrow>
          (put h' anim
             ((objects h' anim)\<lparr>frames := frames (objects h' this),
                frame := frame (objects h' this),
                elapsedMillis := elapsedMillis (objects h' this),
                repeatAt := repeatAt (objects h' this),
                width := width (objects h' this),
                height := height (objects h' this)\<rparr>),
           anim))"

text \<open>
  \<^verbatim>\<open>this.frames[this.frame]\<close>: reading past the end of a JavaScript array gives
  \<^verbatim>\<open>undefined\<close>, and reading a property of \<^verbatim>\<open>undefined\<close> throws a TypeError.
\<close>

definition current_frame :: "'img heap \<Rightarrow> animation \<Rightarrow> 'img frame_obj option" where
  "current_frame h this =
     (if frame this < length (arrays h (frames this))
      then Some (arrays h (frames this) ! frame this) else None)"

text \<open>\<^verbatim>\<open>Animation.prototype.step\<close>\<close>

definition step :: "'img heap \<Rightarrow> animation \<Rightarrow> animation" where
  "step h this =
     (let this1 = this\<lparr>frame := frame this + 1\<rparr>
      in if frame this1 \<ge> length (arrays h (frames this1))
         then this1\<lparr>frame := repeatAt this1\<rparr> else this1)"

text \<open>
  \<^verbatim>\<open>Animation.prototype.move\<close>. The \<^verbatim>\<open>while\<close> loop need not end, so it is a partial function
  into \<open>option\<close>: \<open>None\<close> is a loop that runs forever, \<open>Some (Inl TypeError)\<close> the exception
  of reading a frame that is not there, \<open>Some (Inr a)\<close> the Animation when the loop is left.
\<close>

partial_function (option) move_loop ::
  "'img heap \<Rightarrow> animation \<Rightarrow> (error + animation) option" where
  "move_loop h this =
     (case current_frame h this of
        None \<Rightarrow> Some (Inl TypeError)
      | Some f \<Rightarrow>
          if num_gt (elapsedMillis this) (time f)
          then move_loop h
                 (step h (this\<lparr>elapsedMillis := num_sub (elapsedMillis this) (time f)\<rparr>))
          else Some (Inr this))"

definition move :: "'img heap \<Rightarrow> animation \<Rightarrow> number \<Rightarrow> (error + animation) option" where
  "move h this millis =
     move_loop h (this\<lparr>elapsedMillis := num_add (elapsedMillis this) millis\<rparr>)"

declare move_loop.simps [code]

text \<open>\<^verbatim>\<open>a.move(d1); a.move(d2)\<close>: the second call runs only when the first has returned.\<close>

definition move_twice ::
  "'img heap \<Rightarrow> animation \<Rightarrow> number \<Rightarrow> number \<Rightarrow> (error + animation) option" where
  "move_twice h this d1 d2 =
     (case move h this d1 of
        None \<Rightarrow> None
      | Some (Inl e) \<Rightarrow> Some (Inl e)
      | Some (Inr this') \<Rightarrow> move h this' d2)"

text \<open>
  \<^verbatim>\<open>Animation.prototype.draw\<close>. The drawing context is the caller's; its \<^verbatim>\<open>drawImage\<close> method
  is a parameter, and the result is the context after that one call.
\<close>

definition draw ::
  "'img heap \<Rightarrow> animation \<Rightarrow> ('img \<Rightarrow> 'n \<Rightarrow> 'n \<Rightarrow> 'ctx \<Rightarrow> 'ctx) \<Rightarrow> 'ctx \<Rightarrow> 'n \<Rightarrow> 'n
     \<Rightarrow> error + 'ctx" where
  "draw h this drawImage ctx px py =
     (case current_frame h this of
        None \<Rightarrow> Inl TypeError
      | Some f \<Rightarrow> Inr (drawImage (img f) px py ctx))"

text \<open>
  The loop shared by the flip and rotate methods:
  \<^verbatim>\<open>for (var i = 0; i < this.frames.length; i++) this.frames[i].img = f(this.frames[i].img);\<close>
  The functions of \<^verbatim>\<open>./buffer\<close> are not part of these sources: \<open>f\<close> is a parameter.
\<close>

function frames_loop ::
  "('img \<Rightarrow> 'img) \<Rightarrow> nat \<Rightarrow> 'img frame_obj list \<Rightarrow> 'img frame_obj list" where
  "frames_loop f i fs =
     (if i < length fs
      then frames_loop f (i + 1) (fs[i := (fs ! i)\<lparr>img := f (img (fs ! i))\<rparr>])
      else fs)"
  by pat_completeness auto
termination
  by (relation "measure (\<lambda>(f, i, fs). length fs - i)") auto

declare frames_loop.simps [simp del]

definition flipHorizontally ::
  "('img \<Rightarrow> 'img) \<Rightarrow> 'img heap \<Rightarrow> animation \<Rightarrow> 'img heap \<times> animation" where
  "flipHorizontally flipBufferHorizontally h this =
     (h\<lparr>arrays := (arrays h)(frames this :=
          frames_loop flipBufferHorizontally 0 (arrays h (frames this)))\<rparr>, this)"

definition flipVertically ::
  "('img \<Rightarrow> 'img) \<Rightarrow> 'img heap \<Rightarrow> animation \<Rightarrow> 'img heap \<times> animation" where
  "flipVertically flipBufferVertically h this =
     (h\<lparr>arrays := (arrays h)(frames this :=
          frames_loop flipBufferVertically 0 (arrays h (frames this)))\<rparr>, this)"

definition rotateClockwise ::
  "('img \<Rightarrow> 'img) \<Rightarrow> 'img heap \<Rightarrow> animation \<Rightarrow> 'img heap \<times> animation" where
  "rotateClockwise buffer_rotateClockwise h this =
     (let w = width this;
          this1 = this\<lparr>width := height this\<rparr>;
          this2 = this1\<lparr>height := w\<rparr>
      in (h\<lparr>arrays := (arrays h)(frames this2 :=
            frames_loop buffer_rotateClockwise 0 (arrays h (frames this2)))\<rparr>, this2))"

definition rotateCounterclockwise ::
  "('img \<Rightarrow> 'img) \<Rightarrow> 'img heap \<Rightarrow> animation \<Rightarrow> 'img heap \<times> animation" where
  "rotateCounterclockwise buffer_rotateCounterclockwise h this =
     (let w = width this;
          this1 = this\<lparr>width := height this\<rparr>;
          this2 = this1\<lparr>height := w\<rparr>
      in (h\<lparr>arrays := (arrays h)(frames this2 :=
            frames_loop buffer_rotateCounterclockwise 0 (arrays h (frames this2)))\<rparr>, this2))"

section \<open>Data model of \<^verbatim>\<open>lib/camera.js\<close>\<close>

text \<open>
  Modelled from the spec: the Entity that a Camera extends is not part of these sources;
  it is "a positionable rectangle with x, y, width, height". Coordinates are finite
  JavaScript numbers, modelled as \<open>real\<close>.
\<close>

record camera =
  cam_x :: real
  cam_y :: real
  cam_width :: real
  cam_height :: real

text \<open>
  \<^verbatim>\<open>v|0\<close> is ECMAScript's ToInt32: drop the fraction (towards zero), reduce modulo
  \<open>2 ^ 32\<close>, and read the result as a signed 32-bit integer.
\<close>

definition toInt32 :: "real \<Rightarrow> int" where
  "toInt32 v =
     (let n = (if v < 0 then - \<lfloor>- v\<rfloor> else \<lfloor>v\<rfloor>);
          m = n mod 2 ^ 32
      in if m \<ge> 2 ^ 31 then m - 2 ^ 32 else m)"

text \<open>
  The drawing context is the browser's CanvasRenderingContext2D. Its model keeps what the
  camera touches: the origin of the current transformation, moved by \<^verbatim>\<open>translate\<close>, and
  the stack of saved drawing states, pushed by \<^verbatim>\<open>save\<close> and popped by \<^verbatim>\<open>restore\<close>
  (which does nothing on an empty stack).
\<close>

record context2d =
  origin_x :: real
  origin_y :: real
  state_stack :: "(real \<times> real) list"

definition save :: "context2d \<Rightarrow> context2d" where
  "save ctx = ctx\<lparr>state_stack := (origin_x ctx, origin_y ctx) # state_stack ctx\<rparr>"

definition translate :: "context2d \<Rightarrow> real \<Rightarrow> real \<Rightarrow> context2d" where
  "translate ctx dx dy = ctx\<lparr>origin_x := origin_x ctx + dx, origin_y := origin_y ctx + dy\<rparr>"

definition restore :: "context2d \<Rightarrow> context2d" where
  "restore ctx =
     (case state_stack ctx of
        [] \<Rightarrow> ctx
      | (ox, oy) # rest \<Rightarrow> ctx\<lparr>origin_x := ox, origin_y := oy, state_stack := rest\<rparr>)"

text \<open>\<^verbatim>\<open>Camera.prototype.draw\<close>\<close>

definition Camera_draw :: "camera \<Rightarrow> context2d \<Rightarrow> context2d" where
  "Camera_draw this ctx =
     translate ctx (- of_int (toInt32 (cam_x this))) (- of_int (toInt32 (cam_y this)))"

text \<open>
  \<^verbatim>\<open>Camera.prototype.drawAbsolute\<close>. The callback draws on the context it closes over and
  either returns or throws; either way it leaves the context in some state. The method has
  no \<^verbatim>\<open>try\<close>: an exception of the callback leaves it at once.
\<close>

datatype outcome = Returned | Thrown

definition drawAbsolute ::
  "camera \<Rightarrow> context2d \<Rightarrow> (context2d \<Rightarrow> outcome \<times> context2d) \<Rightarrow> outcome \<times> context2d" where
  "drawAbsolute this ctx drawFunc =
     (let ctx1 = save ctx;
          ctx2 = translate ctx1 (of_int (toInt32 (cam_x this))) (of_int (toInt32 (cam_y this)))
      in case drawFunc ctx2 of
           (Thrown, ctx3) \<Rightarrow> (Thrown, ctx3)
         | (Returned, ctx3) \<Rightarrow> (Returned, restore ctx3))"

section \<open>Example objects\<close>

text \<open>
  Three frames of 100 ms each, as in the specification's worked example, held by the one
  Animation object of the store.
\<close>

definition abc_anim :: animation where
  "abc_anim =
     \<lparr>frames = 0, frame = 0, elapsedMillis = whole 0, repeatAt = 0, width = 8, height = 4\<rparr>"

definition abc_heap :: "string heap" where
  "abc_heap =
     \<lparr>arrays = (\<lambda>r. [])(0 := [\<lparr>img = ''A'', time = whole 100\<rparr>,
                             \<lparr>img = ''B'', time = whole 100\<rparr>,
                             \<lparr>img = ''C'', time = whole 100\<rparr>]),
      next_ref = 1, objects = (\<lambda>r. abc_anim), next_obj = 1\<rparr>"




definition empty_heap :: "string heap" where
  "empty_heap = \<lparr>arrays = (\<lambda>r. []), next_ref = 0, objects = (\<lambda>r. abc_anim), next_obj = 0\<rparr>"

text \<open>The numbers that the literals \<^verbatim>\<open>133.3\<close> and \<^verbatim>\<open>66.7\<close> denote.\<close>

definition d_133_3 :: number where
  "d_133_3 = binary64 (1333 / 10)"

definition d_66_7 :: number where
  "d_66_7 = binary64 (667 / 10)"

definition blank_context :: context2d where
  "blank_context = \<lparr>origin_x = 0, origin_y = 0, state_stack = []\<rparr>"

definition failing_drawFunc :: "context2d \<Rightarrow> outcome \<times> context2d" where
  "failing_drawFunc ctx = (Thrown, ctx)"

definition plain_drawFunc :: "context2d \<Rightarrow> outcome \<times> context2d" where
  "plain_drawFunc ctx = (Returned, translate ctx 3 4)"

text \<open>A camera at \<open>(50.5, -20)\<close> and a camera at \<open>(-1.5, 0)\<close>.\<close>

definition wide_camera :: camera where
  "wide_camera = \<lparr>cam_x = 101 / 2, cam_y = - 20, cam_width = 640, cam_height = 480\<rparr>"

definition skew_camera :: camera where
  "skew_camera = \<lparr>cam_x = - 3 / 2, cam_y = 0, cam_width = 640, cam_height = 480\<rparr>"

text \<open>A stand-in for a buffer transform, and a context that records its \<^verbatim>\<open>drawImage\<close> calls.\<close>

definition mark_flipped :: "string \<Rightarrow> string" where
  "mark_flipped im = ''flipped '' @ im"

definition log_drawImage ::
  "string \<Rightarrow> int \<Rightarrow> int \<Rightarrow> (string \<times> int \<times> int) list \<Rightarrow> (string \<times> int \<times> int) list" where
  "log_drawImage im px py calls = calls @ [(im, px, py)]"

section \<open>Arithmetic of JavaScript numbers\<close>

subsection \<open>Rounding\<close>


lemma round_half_even_of_int [simp]: "round_half_even (of_int m) = m"
  by (simp add: round_half_even_def)

lemma round_half_even_ge_floor: "\<lfloor>q\<rfloor> \<le> round_half_even q"
  by (simp add: round_half_even_def Let_def)

lemma pow2_pos: "0 < (2::real) powi k"
  by simp

lemma pow2_powr: "(2::real) powr (of_int k) = 2 powi k"
  by (rule powr_real_of_int') simp_all

lemma pow2_powr_Suc: "(2::real) powr (of_int k + 1) = 2 powi (k + 1)"
  using pow2_powr [of "k + 1"] by simp

lemma floor_log2_bounds:
  assumes "0 < v"
  shows "2 powi \<lfloor>log 2 v\<rfloor> \<le> v" and "v < 2 powi (\<lfloor>log 2 v\<rfloor> + 1)"
proof -
  have "2 powr (of_int \<lfloor>log 2 v\<rfloor>) \<le> v \<and> v < 2 powr (of_int (\<lfloor>log 2 v\<rfloor> + 1))"
    using floor_log_eq_powr_iff [of v 2 "\<lfloor>log 2 v\<rfloor>"] assms by simp
  then show "2 powi \<lfloor>log 2 v\<rfloor> \<le> v" and "v < 2 powi (\<lfloor>log 2 v\<rfloor> + 1)"
    by (simp_all add: pow2_powr pow2_powr_Suc)
qed

lemma floor_log2_eq:
  assumes "2 powi e \<le> v" and "v < 2 powi (e + 1)"
  shows "\<lfloor>log 2 v\<rfloor> = e"
proof -
  have "0 < v" using assms(1) pow2_pos [of e] by linarith
  moreover have "2 powr (of_int e) \<le> v \<and> v < 2 powr (of_int (e + 1))"
    using assms by (simp add: pow2_powr pow2_powr_Suc)
  ultimately show ?thesis
    using floor_log_eq_powr_iff [of v 2 e] by simp
qed

lemma ulp_exponent_eq:
  assumes "2 powi e \<le> \<bar>v\<bar>" and "\<bar>v\<bar> < 2 powi (e + 1)"
  shows "ulp_exponent v = max e (- 1022) - 52"
  using floor_log2_eq [OF assms] by (simp add: ulp_exponent_def)

lemma binary64_eq:
  assumes "2 powi e \<le> \<bar>v\<bar>" and "\<bar>v\<bar> < 2 powi (e + 1)"
  shows "binary64 v = round_at (max e (- 1022) - 52) v"
proof -
  have "v \<noteq> 0"
  proof
    assume "v = 0"
    with assms(1) have "2 powi e \<le> (0::real)" by simp
    with pow2_pos [of e] show False by linarith
  qed
  then show ?thesis by (simp add: binary64_def ulp_exponent_eq [OF assms])
qed



lemma round_at_nonneg:
  assumes "0 \<le> v"
  shows "round_at k v = PosInf \<or> (\<exists>w. round_at k v = Finite w \<and> 0 \<le> w)"
proof -
  have u: "0 < (2::real) powi k" by (rule pow2_pos)
  then have "0 \<le> v / 2 powi k" using assms by simp
  then have "0 \<le> \<lfloor>v / 2 powi k\<rfloor>" by simp
  then have "0 \<le> round_half_even (v / 2 powi k)"
    using round_half_even_ge_floor [of "v / 2 powi k"] by linarith
  then have "0 \<le> of_int (round_half_even (v / 2 powi k)) * (2::real) powi k"
    using u by simp
  then show ?thesis by (auto simp: round_at_def Let_def)
qed

lemma binary64_nonneg:
  assumes "0 \<le> v"
  shows "binary64 v = PosInf \<or> (\<exists>w. binary64 v = Finite w \<and> 0 \<le> w)"
  using round_at_nonneg [OF assms] by (auto simp: binary64_def)





text \<open>Whole numbers up to \<open>2 ^ 53\<close> are binary64 values.\<close>

lemma round_at_grid:
  assumes "v = of_int m * 2 powi k" and "\<bar>v\<bar> < 2 ^ 1024"
  shows "round_at k v = Finite v"
proof -
  have "v / 2 powi k = of_int m"
    using assms(1) pow2_pos [of k] by simp
  then have "of_int (round_half_even (v / 2 powi k)) * 2 powi k = v"
    using assms(1) by simp
  moreover have "\<not> 2 ^ 1024 \<le> v" and "\<not> v \<le> - (2 ^ 1024)"
    using assms(2) by linarith+
  ultimately show ?thesis
    by (simp only: round_at_def Let_def if_False)
qed

lemma binary64_of_int:
  assumes "\<bar>n\<bar> \<le> 2 ^ 53"
  shows "binary64 (of_int n) = Finite (of_int n)"
proof (cases "n = 0")
  case True
  then show ?thesis by (simp add: binary64_def)
next
  case False
  let ?v = "of_int n :: real"
  let ?e = "\<lfloor>log 2 \<bar>?v\<bar>\<rfloor>"
  have one: "1 \<le> \<bar>?v\<bar>" using False by (simp flip: of_int_abs)
  have top: "\<bar>?v\<bar> \<le> 2 ^ 53"
    using assms by (metis of_int_abs of_int_le_iff of_int_numeral of_int_power)
  have small: "\<bar>?v\<bar> < 2 ^ 1024"
  proof -
    have "(2::real) ^ 53 < 2 ^ 1024" by (rule power_strict_increasing) simp_all
    with top show ?thesis by linarith
  qed
  have pos: "0 < \<bar>?v\<bar>" using one by linarith
  have e0: "0 \<le> ?e" using one by simp
  have "2 powi ?e \<le> \<bar>?v\<bar>" using floor_log2_bounds(1) [OF pos] .
  with top have "(2::real) powi ?e \<le> 2 powi 53" by simp
  then have e53: "?e \<le> 53" by (rule power_int_le_imp_le_exp [rotated]) simp_all
  have k: "ulp_exponent ?v = ?e - 52" using e0 by (simp add: ulp_exponent_def)
  have "\<exists>m. ?v = of_int m * 2 powi (?e - 52)"
  proof (cases "?e \<le> 52")
    case True
    define j where "j = nat (52 - ?e)"
    have "(2::real) powi (?e - 52) = inverse (2 ^ j)"
      using True by (simp add: j_def power_int_def power_one_over inverse_eq_divide)
    then have "?v = of_int (n * 2 ^ j) * 2 powi (?e - 52)" by simp
    then show ?thesis by blast
  next
    case False
    with e53 have e: "?e = 53" by linarith
    then have "2 powi 53 \<le> \<bar>?v\<bar>" using floor_log2_bounds(1) [OF pos] by simp
    with top have "\<bar>?v\<bar> = 2 ^ 53" by simp
    then have "?v = 2 ^ 53 \<or> ?v = - (2 ^ 53)" by linarith
    then have "?v = of_int (2 ^ 52) * 2 powi (?e - 52) \<or> ?v = of_int (- (2 ^ 52)) * 2 powi (?e - 52)"
      by (simp add: e)
    then show ?thesis by blast
  qed
  then obtain m where "?v = of_int m * 2 powi (?e - 52)" ..
  then have "round_at (?e - 52) ?v = Finite ?v"
    using small by (rule round_at_grid)
  then show ?thesis
    using False by (simp add: binary64_def k)
qed

subsection \<open>Whole numbers\<close>

lemma whole_eq_iff [simp]: "whole a = whole b \<longleftrightarrow> a = b"
  by (simp add: whole_def)

lemma num_gt_whole [simp]: "num_gt (whole a) (whole b) \<longleftrightarrow> b < a"
  by (simp add: whole_def)

lemma num_le_whole [simp]: "num_le (whole a) (whole b) \<longleftrightarrow> a \<le> b"
  by (simp add: whole_def)

lemma num_add_whole:
  assumes "\<bar>a + b\<bar> \<le> 2 ^ 53"
  shows "num_add (whole a) (whole b) = whole (a + b)"
  using binary64_of_int [OF assms] by (simp add: whole_def)

lemma num_sub_whole:
  assumes "\<bar>a - b\<bar> \<le> 2 ^ 53"
  shows "num_sub (whole a) (whole b) = whole (a - b)"
  using binary64_of_int [OF assms] by (simp add: whole_def num_sub_def)

lemma is_number_whole:
  assumes "\<bar>n\<bar> \<le> 2 ^ 53"
  shows "is_number (whole n)"
  using binary64_of_int [OF assms] by (simp add: whole_def)

lemma whole_not_special [simp]:
  "whole n \<noteq> NaN" "whole n \<noteq> PosInf" "whole n \<noteq> NegInf"
  by (simp_all add: whole_def)

subsection \<open>Signs and comparisons\<close>

lemma num_le_not_NaN: "num_le a b \<Longrightarrow> a \<noteq> NaN \<and> b \<noteq> NaN"
  by (cases a; cases b) simp_all

lemma num_le_iff_not_gt: "a \<noteq> NaN \<Longrightarrow> b \<noteq> NaN \<Longrightarrow> num_le a b \<longleftrightarrow> \<not> num_gt a b"
  by (cases a; cases b) auto

lemma binary64_nonneg_le: "0 \<le> v \<Longrightarrow> num_le (whole 0) (binary64 v)"
  using binary64_nonneg [of v] by (auto simp: whole_def)

lemma num_add_nonneg:
  assumes "num_le (whole 0) a" and "num_le (whole 0) b"
  shows "num_le (whole 0) (num_add a b)"
proof (cases a)
  case a: (Finite x)
  show ?thesis
  proof (cases b)
    case (Finite y)
    with a assms have "0 \<le> x + y" by (simp add: whole_def)
    then show ?thesis using a Finite by (simp add: binary64_nonneg_le)
  qed (use a assms in \<open>simp_all add: whole_def\<close>)
next
  case PosInf
  with assms show ?thesis by (cases b) (simp_all add: whole_def)
qed (use assms in \<open>simp_all add: whole_def\<close>)

lemma num_sub_nonneg:
  assumes "num_gt a b"
  shows "num_le (whole 0) (num_sub a b)"
proof (cases a; cases b)
  fix x y
  assume ab: "a = Finite x" "b = Finite y"
  with assms have "0 \<le> x + - y" by simp
  then have "num_le (whole 0) (binary64 (x + - y))" by (rule binary64_nonneg_le)
  then show ?thesis using ab by (simp add: num_sub_def)
qed (use assms in \<open>simp_all add: whole_def num_sub_def\<close>)



section \<open>Stepping\<close>

text \<open>What \<open>step\<close> leaves alone, and where it leaves the frame index.\<close>

lemma frames_step [simp]: "frames (step h a) = frames a"
  by (simp add: step_def Let_def)

lemma elapsedMillis_step [simp]: "elapsedMillis (step h a) = elapsedMillis a"
  by (simp add: step_def Let_def)

lemma repeatAt_step [simp]: "repeatAt (step h a) = repeatAt a"
  by (simp add: step_def Let_def)

lemma current_frame_elapsed [simp]:
  "current_frame h (a\<lparr>elapsedMillis := e\<rparr>) = current_frame h a"
  by (simp add: current_frame_def)

lemma current_frame_in_set:
  "current_frame h a = Some f \<Longrightarrow> f \<in> set (arrays h (frames a))"
  by (auto simp: current_frame_def split: if_splits)

lemma frame_step_in_range:
  "repeatAt a < length (arrays h (frames a)) \<Longrightarrow>
   frame (step h a) < length (arrays h (frames a))"
  by (simp add: step_def Let_def)

lemma step_wraps:
  assumes "repeatAt a = 0" and "frame a < length (arrays h (frames a))"
  shows "step h a = a\<lparr>frame := (frame a + 1) mod length (arrays h (frames a))\<rparr>"
proof (cases "frame a + 1 < length (arrays h (frames a))")
  case True
  then show ?thesis by (simp add: step_def Let_def)
next
  case False
  with assms(2) have "frame a + 1 = length (arrays h (frames a))" by simp
  with assms(1) show ?thesis by (simp add: step_def Let_def)
qed

lemma step_funpow:
  assumes "repeatAt a = 0" and "frame a < length (arrays h (frames a))"
  shows "(step h ^^ k) a = a\<lparr>frame := (frame a + k) mod length (arrays h (frames a))\<rparr>"
proof (induction k)
  case 0
  with assms(2) show ?case by simp
next
  case (Suc k)
  let ?n = "length (arrays h (frames a))"
  let ?b = "a\<lparr>frame := (frame a + k) mod ?n\<rparr>"
  have "0 < ?n" using assms(2) by auto
  then have "frame ?b < length (arrays h (frames ?b))" by simp
  moreover have "repeatAt ?b = 0" using assms(1) by simp
  ultimately have "step h ?b = ?b\<lparr>frame := (frame ?b + 1) mod length (arrays h (frames ?b))\<rparr>"
    by (rule step_wraps [rotated])
  then show ?case
    using Suc by (simp add: mod_Suc_eq)
qed

text \<open>
  Claim C8. With a non-empty frame array, \<^verbatim>\<open>repeatAt\<close> equal to 0 and the current frame
  index inside the array, calling \<^verbatim>\<open>step\<close> as many times as there are frames brings the
  index back to where it started.
\<close>

theorem step_cycle:
  assumes "arrays h (frames a) \<noteq> []" and "repeatAt a = 0"
    and "frame a < length (arrays h (frames a))"
  shows "frame ((step h ^^ length (arrays h (frames a))) a) = frame a"
  using assms(3) by (simp add: step_funpow [OF assms(2,3)])

theorem step_cycle_witness:
  "arrays abc_heap (frames (abc_anim\<lparr>frame := 1\<rparr>)) \<noteq> [] \<and>
   repeatAt (abc_anim\<lparr>frame := 1\<rparr>) = 0 \<and>
   frame (abc_anim\<lparr>frame := 1\<rparr>) < length (arrays abc_heap (frames (abc_anim\<lparr>frame := 1\<rparr>))) \<and>
   length (arrays abc_heap (frames (abc_anim\<lparr>frame := 1\<rparr>))) = 3 \<and>
   frame (step abc_heap (step abc_heap (step abc_heap (abc_anim\<lparr>frame := 1\<rparr>)))) = 1"
  using step_cycle [of abc_heap "abc_anim\<lparr>frame := 1\<rparr>"]
  by (simp add: abc_heap_def abc_anim_def numeral_3_eq_3)

text \<open>
  Claim C10. \<^verbatim>\<open>step\<close> never reads a frame, so it cannot throw: the model is a total
  function with no error result. On an empty frame array the incremented index is at least
  the length 0, so \<^verbatim>\<open>step\<close> sets the index to \<^verbatim>\<open>repeatAt\<close> whatever it was; on a
  freshly constructed Animation, whose array is empty and whose \<^verbatim>\<open>repeatAt\<close> is 0, the
  index stays 0.
\<close>

theorem step_empty:
  "(arrays h (frames a) = [] \<longrightarrow> step h a = a\<lparr>frame := repeatAt a\<rparr>) \<and>
   (case Animation h of
      (h', anim) \<Rightarrow>
        arrays h' (frames (objects h' anim)) = [] \<and>
        step h' (objects h' anim) = objects h' anim \<and>
        frame (step h' (objects h' anim)) = 0)"
  by (simp add: step_def Let_def Animation_def)

theorem step_empty_witness:
  "arrays empty_heap (frames (abc_anim\<lparr>frame := 5, repeatAt := 2\<rparr>)) = [] \<and>
   step empty_heap (abc_anim\<lparr>frame := 5, repeatAt := 2\<rparr>) = abc_anim\<lparr>frame := 2, repeatAt := 2\<rparr>"
  using step_empty [of empty_heap "abc_anim\<lparr>frame := 5, repeatAt := 2\<rparr>"]
  by (simp add: empty_heap_def abc_anim_def)

section \<open>Advancing by time\<close>

text \<open>
  Induction over the iterations of the loop of \<open>move\<close>, for what holds when it is left and
  for when it is never left; that it is left, for whole numbers of milliseconds, by
  induction on the time still to be used up.
\<close>

lemmas move_loop_induct = move_loop.raw_induct [rotated 1, consumes 1, case_names iterate]

lemma move_loop_bounds:
  assumes "move_loop h a = Some (Inr a')" and "num_le (whole 0) (elapsedMillis a)"
  shows "num_le (whole 0) (elapsedMillis a') \<and>
         (\<exists>f. current_frame h a' = Some f \<and> \<not> num_gt (elapsedMillis a') (time f))"
proof -
  have "\<forall>a'. r = Inr a' \<longrightarrow> num_le (whole 0) (elapsedMillis a) \<longrightarrow>
           num_le (whole 0) (elapsedMillis a') \<and>
           (\<exists>f. current_frame h a' = Some f \<and> \<not> num_gt (elapsedMillis a') (time f))"
    if "move_loop h a = Some r" for r
    using that
  proof (induct rule: move_loop_induct)
    case (iterate loop h a r)
    show ?case
    proof (cases "current_frame h a")
      case None
      with iterate(2) show ?thesis by auto
    next
      case (Some f)
      show ?thesis
      proof (cases "num_gt (elapsedMillis a) (time f)")
        case True
        let ?b = "step h (a\<lparr>elapsedMillis := num_sub (elapsedMillis a) (time f)\<rparr>)"
        from Some True iterate(2) have "loop h ?b = Some r" by simp
        from iterate(1) [OF this] num_sub_nonneg [OF True] show ?thesis by simp
      next
        case False
        with Some iterate(2) show ?thesis by auto
      qed
    qed
  qed
  with assms show ?thesis by blast
qed

lemma move_loop_normal:
  assumes "move_loop h a = Some r"
    and "frame a < length (arrays h (frames a))"
    and "repeatAt a < length (arrays h (frames a))"
  shows "\<exists>a'. r = Inr a'"
proof -
  have "frame a < length (arrays h (frames a)) \<longrightarrow>
        repeatAt a < length (arrays h (frames a)) \<longrightarrow> (\<exists>a'. r = Inr a')"
    using assms(1)
  proof (induct rule: move_loop_induct)
    case (iterate loop h a r)
    show ?case
    proof (intro impI)
      assume fr: "frame a < length (arrays h (frames a))"
        and rp: "repeatAt a < length (arrays h (frames a))"
      then obtain f where f: "current_frame h a = Some f"
        by (auto simp: current_frame_def)
      show "\<exists>a'. r = Inr a'"
      proof (cases "num_gt (elapsedMillis a) (time f)")
        case True
        let ?c = "a\<lparr>elapsedMillis := num_sub (elapsedMillis a) (time f)\<rparr>"
        from f True iterate(2) have "loop h (step h ?c) = Some r" by simp
        from iterate(1) [OF this] rp frame_step_in_range [of ?c h]
        show ?thesis by simp
      next
        case False
        with f iterate(2) show ?thesis by auto
      qed
    qed
  qed
  with assms show ?thesis by blast
qed



text \<open>
  Whole numbers of milliseconds up to \<open>2 ^ 53\<close>: every sum and difference is exact, the loop
  is left, and time added before the loop can as well be added after it.
\<close>

lemma move_loop_whole:
  assumes "\<forall>f\<in>set (arrays h (frames a)). \<exists>t. 0 < t \<and> time f = whole t"
    and "elapsedMillis a = whole n" and "0 \<le> n" and "0 \<le> k" and "n + k \<le> 2 ^ 53"
  shows "(\<exists>r. move_loop h a = Some r) \<and>
         move_loop h (a\<lparr>elapsedMillis := whole (n + k)\<rparr>) =
           (case move_loop h a of
              None \<Rightarrow> None
            | Some (Inl e) \<Rightarrow> Some (Inl e)
            | Some (Inr a') \<Rightarrow>
                move_loop h (a'\<lparr>elapsedMillis := num_add (elapsedMillis a') (whole k)\<rparr>))"
  using assms
proof (induction "nat n" arbitrary: a n rule: less_induct)
  case less
  show ?case
  proof (cases "current_frame h a")
    case None
    then have "move_loop h a = Some (Inl TypeError)"
      by (subst move_loop.simps) simp
    moreover from None have "move_loop h (a\<lparr>elapsedMillis := whole (n + k)\<rparr>) = Some (Inl TypeError)"
      by (subst move_loop.simps) simp
    ultimately show ?thesis by simp
  next
    case (Some f)
    then obtain t where t: "0 < t" "time f = whole t"
      using less.prems(1) current_frame_in_set by blast
    show ?thesis
    proof (cases "t < n")
      case True
      let ?b = "step h (a\<lparr>elapsedMillis := whole (n - t)\<rparr>)"
      have sub: "num_sub (whole n) (whole t) = whole (n - t)"
        using True t(1) less.prems(3-5) by (intro num_sub_whole) simp
      have sub': "num_sub (whole (n + k)) (whole t) = whole (n - t + k)"
        using num_sub_whole [of "n + k" t] True t(1) less.prems(3-5) by (simp add: algebra_simps)
      have a: "move_loop h a = move_loop h ?b"
        using Some True t less.prems(2) sub by (subst move_loop.simps) simp
      have ak: "move_loop h (a\<lparr>elapsedMillis := whole (n + k)\<rparr>) =
            move_loop h (?b\<lparr>elapsedMillis := whole (n - t + k)\<rparr>)"
      proof -
        have "num_gt (whole (n + k)) (whole t)" using True less.prems(4) by simp
        then have "move_loop h (a\<lparr>elapsedMillis := whole (n + k)\<rparr>) =
            move_loop h (step h (a\<lparr>elapsedMillis := whole (n - t + k)\<rparr>))"
          using Some t(2) sub' by (subst move_loop.simps) simp
        moreover have "step h (a\<lparr>elapsedMillis := whole (n - t + k)\<rparr>) =
            ?b\<lparr>elapsedMillis := whole (n - t + k)\<rparr>"
          by (simp add: step_def Let_def)
        ultimately show ?thesis by simp
      qed
      have "(\<exists>r. move_loop h ?b = Some r) \<and>
         move_loop h (?b\<lparr>elapsedMillis := whole (n - t + k)\<rparr>) =
           (case move_loop h ?b of
              None \<Rightarrow> None
            | Some (Inl e) \<Rightarrow> Some (Inl e)
            | Some (Inr a') \<Rightarrow>
                move_loop h (a'\<lparr>elapsedMillis := num_add (elapsedMillis a') (whole k)\<rparr>))"
      proof (rule less.hyps)
        show "nat (n - t) < nat n" using True t(1) by simp
        show "\<forall>f\<in>set (arrays h (frames ?b)). \<exists>t. 0 < t \<and> time f = whole t"
          using less.prems(1) by simp
        show "elapsedMillis ?b = whole (n - t)" by simp
        show "0 \<le> n - t" using True by simp
        show "0 \<le> k" by (rule less.prems(4))
        show "n - t + k \<le> 2 ^ 53" using less.prems(5) t(1) by simp
      qed
      then show ?thesis by (simp only: a ak)
    next
      case False
      then have a: "move_loop h a = Some (Inr a)"
        using Some t(2) less.prems(2) by (subst move_loop.simps) simp
      have "num_add (elapsedMillis a) (whole k) = whole (n + k)"
        using less.prems(2-5) by (simp add: num_add_whole)
      then show ?thesis by (simp add: a)
    qed
  qed
qed

lemma num_gt_irrefl [simp]: "\<not> num_gt a a"
  by (cases a) simp_all

lemma num_add_zero:
  assumes "is_number a"
  shows "num_add (whole 0) a = a"
  using assms by (cases a) (simp_all add: whole_def)

text \<open>The worked example of the specification: 250 ms, then 60 ms more.\<close>

lemma move_abc_250:
  "move abc_heap abc_anim (whole 250) =
   Some (Inr (abc_anim\<lparr>frame := 2, elapsedMillis := whole 50\<rparr>))"
  by (simp add: move_def move_loop.simps current_frame_def step_def abc_heap_def abc_anim_def
      num_add_whole num_sub_whole)

lemma move_abc_60:
  "move abc_heap (abc_anim\<lparr>frame := 2, elapsedMillis := whole 50\<rparr>) (whole 60) =
   Some (Inr (abc_anim\<lparr>frame := 0, elapsedMillis := whole 10\<rparr>))"
  by (simp add: move_def move_loop.simps current_frame_def step_def abc_heap_def abc_anim_def
      num_add_whole num_sub_whole)

text \<open>
  Claim C1, amended. When \<^verbatim>\<open>move\<close> is called with a non-negative number of milliseconds on
  an Animation whose \<^verbatim>\<open>elapsedMillis\<close> is not negative, and returns, then
  \<^verbatim>\<open>elapsedMillis\<close> is not negative and is at most the duration of the frame that the
  index now names: it does not exceed that duration, and is less than or equal to it
  whenever the duration is not NaN. It can be equal to that duration: the loop is left as
  soon as \<^verbatim>\<open>elapsedMillis > time\<close> fails.
\<close>

theorem move_elapsed_bounds:
  assumes "move h a d = Some (Inr a')"
    and "num_le (whole 0) (elapsedMillis a)" and "num_le (whole 0) d"
  shows "num_le (whole 0) (elapsedMillis a') \<and>
         (\<exists>f. current_frame h a' = Some f \<and> \<not> num_gt (elapsedMillis a') (time f) \<and>
              (time f \<noteq> NaN \<longrightarrow> num_le (elapsedMillis a') (time f)))"
proof -
  let ?b = "a\<lparr>elapsedMillis := num_add (elapsedMillis a) d\<rparr>"
  have "num_le (whole 0) (elapsedMillis ?b)"
    using num_add_nonneg [OF assms(2,3)] by simp
  moreover have "move_loop h ?b = Some (Inr a')"
    using assms(1) by (simp add: move_def)
  ultimately have b: "num_le (whole 0) (elapsedMillis a') \<and>
         (\<exists>f. current_frame h a' = Some f \<and> \<not> num_gt (elapsedMillis a') (time f))"
    by (intro move_loop_bounds)
  then have "elapsedMillis a' \<noteq> NaN" using num_le_not_NaN by blast
  with b show ?thesis using num_le_iff_not_gt by blast
qed

theorem move_elapsed_bounds_witness:
  "move abc_heap abc_anim (whole 250) =
     Some (Inr (abc_anim\<lparr>frame := 2, elapsedMillis := whole 50\<rparr>)) \<and>
   num_le (whole 0) (elapsedMillis abc_anim) \<and> num_le (whole 0) (whole 250) \<and>
   num_le (whole 0) (elapsedMillis (abc_anim\<lparr>frame := 2, elapsedMillis := whole 50\<rparr>)) \<and>
   (\<exists>f. current_frame abc_heap (abc_anim\<lparr>frame := 2, elapsedMillis := whole 50\<rparr>) = Some f \<and>
        time f \<noteq> NaN \<and>
        num_le (elapsedMillis (abc_anim\<lparr>frame := 2, elapsedMillis := whole 50\<rparr>)) (time f))"
proof -
  have e: "num_le (whole 0) (elapsedMillis abc_anim)" by (simp add: abc_anim_def)
  have d: "num_le (whole 0) (whole 250)" by simp
  have c: "current_frame abc_heap (abc_anim\<lparr>frame := 2, elapsedMillis := whole 50\<rparr>) =
      Some \<lparr>img = ''C'', time = whole 100\<rparr>"
    by (simp add: current_frame_def abc_heap_def abc_anim_def)
  from move_elapsed_bounds [OF move_abc_250 e d] move_abc_250 e c show ?thesis by simp
qed

text \<open>
  The bound is not strict: from the first of three 100 ms frames with nothing elapsed,
  \<^verbatim>\<open>move(100)\<close> returns with \<^verbatim>\<open>elapsedMillis\<close> equal to the duration 100.
\<close>

theorem move_elapsed_strict_counterexample:
  "move abc_heap abc_anim (whole 100) = Some (Inr (abc_anim\<lparr>elapsedMillis := whole 100\<rparr>)) \<and>
   current_frame abc_heap (abc_anim\<lparr>elapsedMillis := whole 100\<rparr>) =
     Some \<lparr>img = ''A'', time = whole 100\<rparr> \<and>
   \<not> num_gt (time \<lparr>img = ''A'', time = whole 100\<rparr>)
            (elapsedMillis (abc_anim\<lparr>elapsedMillis := whole 100\<rparr>))"
  by (simp add: move_def move_loop.simps current_frame_def step_def abc_heap_def abc_anim_def
      num_add_whole num_sub_whole)

text \<open>
  Claim C5. When nothing has elapsed and \<^verbatim>\<open>move\<close> is given exactly the duration of the
  current frame (a JavaScript number), it returns with the frame index unchanged and
  \<^verbatim>\<open>elapsedMillis\<close> equal to that duration.
\<close>

theorem move_exact_duration:
  assumes "current_frame h a = Some f" and "elapsedMillis a = whole 0"
    and "is_number (time f)"
  shows "move h a (time f) = Some (Inr (a\<lparr>elapsedMillis := time f\<rparr>)) \<and>
         frame (a\<lparr>elapsedMillis := time f\<rparr>) = frame a"
  using assms by (simp add: move_def move_loop.simps num_add_zero)

theorem move_exact_duration_witness:
  "current_frame abc_heap (abc_anim\<lparr>frame := 1\<rparr>) = Some \<lparr>img = ''B'', time = whole 100\<rparr> \<and>
   elapsedMillis (abc_anim\<lparr>frame := 1\<rparr>) = whole 0 \<and>
   is_number (time \<lparr>img = ''B'', time = whole 100\<rparr>) \<and>
   move abc_heap (abc_anim\<lparr>frame := 1\<rparr>) (whole 100) =
     Some (Inr (abc_anim\<lparr>frame := 1, elapsedMillis := whole 100\<rparr>))"
  using move_exact_duration [of abc_heap "abc_anim\<lparr>frame := 1\<rparr>" "\<lparr>img = ''B'', time = whole 100\<rparr>"]
  by (simp add: current_frame_def abc_heap_def abc_anim_def is_number_whole)

text \<open>
  The roundings of the run on \<^verbatim>\<open>133.3\<close> and \<^verbatim>\<open>66.7\<close>, and of \<open>2 ^ 54\<close> less 1.
\<close>

lemma round_133_3: "binary64 (1333 / 10) = Finite (2345038399720653 / 17592186044416)"
  by (subst binary64_eq [of 7]) (simp_all add: round_at_def round_half_even_def Let_def)

lemma round_66_7: "binary64 (667 / 10) = Finite (4693595236650189 / 70368744177664)"
  by (subst binary64_eq [of 6]) (simp_all add: round_at_def round_half_even_def Let_def)

lemma keep_133_3:
  "binary64 (2345038399720653 / 17592186044416) = Finite (2345038399720653 / 17592186044416)"
  by (subst binary64_eq [of 7]) (simp_all add: round_at_def round_half_even_def Let_def)

lemma keep_66_7:
  "binary64 (4693595236650189 / 70368744177664) = Finite (4693595236650189 / 70368744177664)"
  by (subst binary64_eq [of 6]) (simp_all add: round_at_def round_half_even_def Let_def)

lemma keep_33_3:
  "binary64 (585819795279053 / 17592186044416) = Finite (585819795279053 / 17592186044416)"
  by (subst binary64_eq [of 5]) (simp_all add: round_at_def round_half_even_def Let_def)

lemma keep_100_and_ulp:
  "binary64 (7036874417766401 / 70368744177664) = Finite (7036874417766401 / 70368744177664)"
  by (subst binary64_eq [of 6]) (simp_all add: round_at_def round_half_even_def Let_def)

lemma keep_ulp: "binary64 (1 / 70368744177664) = Finite (1 / 70368744177664)"
  by (subst binary64_eq [of "- 46"]) (simp_all add: round_at_def round_half_even_def Let_def)

lemma round_200_and_ulp: "binary64 (14073748835532801 / 70368744177664) = Finite 200"
  by (subst binary64_eq [of 7]) (simp_all add: round_at_def round_half_even_def Let_def)



lemma move_133_3:
  "move abc_heap abc_anim d_133_3 =
   Some (Inr (abc_anim\<lparr>frame := 1,
     elapsedMillis := Finite (585819795279053 / 17592186044416)\<rparr>))"
  by (simp add: move_def move_loop.simps current_frame_def step_def abc_heap_def abc_anim_def
      d_133_3_def round_133_3 whole_def num_sub_def keep_133_3 keep_33_3)

lemma move_66_7:
  "move abc_heap
     (abc_anim\<lparr>frame := 1, elapsedMillis := Finite (585819795279053 / 17592186044416)\<rparr>)
     d_66_7 =
   Some (Inr (abc_anim\<lparr>frame := 2, elapsedMillis := Finite (1 / 70368744177664)\<rparr>))"
  by (simp add: move_def move_loop.simps current_frame_def step_def abc_heap_def abc_anim_def
      d_66_7_def round_66_7 whole_def num_sub_def keep_100_and_ulp keep_ulp)

lemma add_133_3_66_7: "num_add d_133_3 d_66_7 = whole 200"
  by (simp add: d_133_3_def d_66_7_def round_133_3 round_66_7 round_200_and_ulp whole_def)

lemma move_200:
  "move abc_heap abc_anim (whole 200) =
   Some (Inr (abc_anim\<lparr>frame := 1, elapsedMillis := whole 100\<rparr>))"
  by (simp add: move_def move_loop.simps current_frame_def step_def abc_heap_def abc_anim_def
      num_add_whole num_sub_whole)

text \<open>
  Claim C4, amended. On a non-empty frame array whose durations are positive whole numbers
  of milliseconds, from a whole, non-negative \<^verbatim>\<open>elapsedMillis\<close> and for whole, non-negative
  \<open>d1\<close> and \<open>d2\<close> with \<^verbatim>\<open>elapsedMillis + d1 + d2\<close> at most \<open>2 ^ 53\<close>, \<^verbatim>\<open>move(d1)\<close> followed
  by \<^verbatim>\<open>move(d2)\<close> ends exactly as the single call \<^verbatim>\<open>move(d1 + d2)\<close> does, and that call
  does end; when the frame index and \<^verbatim>\<open>repeatAt\<close> are inside the array it ends by
  returning an Animation, so both ways give the same frame index and the same
  \<^verbatim>\<open>elapsedMillis\<close>. (Every sum and difference is then exact.)
\<close>

theorem move_additive:
  assumes "arrays h (frames a) \<noteq> []"
    and "\<forall>f\<in>set (arrays h (frames a)). \<exists>t. 0 < t \<and> time f = whole t"
    and "elapsedMillis a = whole n" and "0 \<le> n"
    and "0 \<le> k1" and "0 \<le> k2" and "n + k1 + k2 \<le> 2 ^ 53"
  shows "move_twice h a (whole k1) (whole k2) = move h a (num_add (whole k1) (whole k2)) \<and>
         (\<exists>r. move h a (num_add (whole k1) (whole k2)) = Some r) \<and>
         (frame a < length (arrays h (frames a)) \<and> repeatAt a < length (arrays h (frames a)) \<longrightarrow>
            (\<exists>a'. move h a (num_add (whole k1) (whole k2)) = Some (Inr a')))"
proof -
  let ?a1 = "a\<lparr>elapsedMillis := whole (n + k1)\<rparr>"
  let ?a12 = "a\<lparr>elapsedMillis := whole (n + k1 + k2)\<rparr>"
  have sum: "num_add (whole k1) (whole k2) = whole (k1 + k2)"
    using assms(4-7) by (intro num_add_whole) simp
  have m1: "move h a (whole k1) = move_loop h ?a1"
    using assms(3-7) by (simp add: move_def num_add_whole)
  have m12: "move h a (whole (k1 + k2)) = move_loop h ?a12"
    using assms(3-7) by (simp add: move_def num_add_whole add.assoc)
  have loop: "(\<exists>r. move_loop h ?a1 = Some r) \<and>
         move_loop h (?a1\<lparr>elapsedMillis := whole (n + k1 + k2)\<rparr>) =
           (case move_loop h ?a1 of
              None \<Rightarrow> None
            | Some (Inl e) \<Rightarrow> Some (Inl e)
            | Some (Inr a') \<Rightarrow>
                move_loop h (a'\<lparr>elapsedMillis := num_add (elapsedMillis a') (whole k2)\<rparr>))"
    using assms by (intro move_loop_whole) simp_all
  have twice: "move_twice h a (whole k1) (whole k2) = move h a (whole (k1 + k2))"
  proof -
    have "move_twice h a (whole k1) (whole k2) =
        (case move_loop h ?a1 of
           None \<Rightarrow> None
         | Some (Inl e) \<Rightarrow> Some (Inl e)
         | Some (Inr a') \<Rightarrow>
             move_loop h (a'\<lparr>elapsedMillis := num_add (elapsedMillis a') (whole k2)\<rparr>))"
      by (simp only: move_twice_def m1, simp only: move_def)
    also have "\<dots> = move_loop h (?a1\<lparr>elapsedMillis := whole (n + k1 + k2)\<rparr>)"
      using loop by simp
    also have "\<dots> = move h a (whole (k1 + k2))"
      by (simp add: m12)
    finally show ?thesis .
  qed
  have ends: "\<exists>r. move_loop h ?a12 = Some r"
    using move_loop_whole [of h ?a12 "n + k1 + k2" 0] assms by simp
  then obtain r where r: "move_loop h ?a12 = Some r" ..
  have "\<exists>a'. r = Inr a'"
    if "frame a < length (arrays h (frames a)) \<and> repeatAt a < length (arrays h (frames a))"
    using move_loop_normal [OF r] that by simp
  with twice r show ?thesis by (simp add: sum m12)
qed

theorem move_additive_witness:
  "map time (arrays abc_heap (frames abc_anim)) = [whole 100, whole 100, whole 100] \<and>
   elapsedMillis abc_anim = whole 0 \<and>
   frame abc_anim < length (arrays abc_heap (frames abc_anim)) \<and>
   repeatAt abc_anim < length (arrays abc_heap (frames abc_anim)) \<and>
   (\<exists>a'. move abc_heap abc_anim (num_add (whole 250) (whole 60)) = Some (Inr a')) \<and>
   move_twice abc_heap abc_anim (whole 250) (whole 60) =
     move abc_heap abc_anim (num_add (whole 250) (whole 60)) \<and>
   move_twice abc_heap abc_anim (whole 250) (whole 60) =
     Some (Inr (abc_anim\<lparr>frame := 0, elapsedMillis := whole 10\<rparr>))"
proof -
  have ne: "arrays abc_heap (frames abc_anim) \<noteq> []"
    by (simp add: abc_heap_def abc_anim_def)
  have pos: "\<forall>f\<in>set (arrays abc_heap (frames abc_anim)). \<exists>t. 0 < t \<and> time f = whole t"
    by (simp add: abc_heap_def abc_anim_def)
  have durations: "map time (arrays abc_heap (frames abc_anim)) = [whole 100, whole 100, whole 100]"
    by (simp add: abc_heap_def abc_anim_def)
  have e: "elapsedMillis abc_anim = whole 0"
    by (simp add: abc_anim_def)
  have twice: "move_twice abc_heap abc_anim (whole 250) (whole 60) =
      Some (Inr (abc_anim\<lparr>frame := 0, elapsedMillis := whole 10\<rparr>))"
    by (simp add: move_twice_def move_abc_250 move_abc_60)
  have inside: "frame abc_anim < length (arrays abc_heap (frames abc_anim))"
    "repeatAt abc_anim < length (arrays abc_heap (frames abc_anim))"
    by (simp_all add: abc_heap_def abc_anim_def)
  from move_additive [OF ne pos e, of 250 60] durations e twice inside show ?thesis by simp
qed

text \<open>
  On fractions the sums round. From the first of three 100 ms frames, \<^verbatim>\<open>move(133.3)\<close> and
  then \<^verbatim>\<open>move(66.7)\<close> end on the third frame with \<open>2 powi - 46\<close> elapsed, as
  \<^verbatim>\<open>33.30000000000001 + 66.7\<close> is just above 100; but \<^verbatim>\<open>133.3 + 66.7\<close> is \<^verbatim>\<open>200\<close>, and
  \<^verbatim>\<open>move(200)\<close> ends on the second frame with 100 elapsed.
\<close>

theorem move_additive_counterexample:
  "move_twice abc_heap abc_anim d_133_3 d_66_7 =
     Some (Inr (abc_anim\<lparr>frame := 2, elapsedMillis := Finite (1 / 2 ^ 46)\<rparr>)) \<and>
   move abc_heap abc_anim (num_add d_133_3 d_66_7) =
     Some (Inr (abc_anim\<lparr>frame := 1, elapsedMillis := whole 100\<rparr>)) \<and>
   is_number d_133_3 \<and> is_number d_66_7 \<and>
   num_le (whole 0) d_133_3 \<and> num_le (whole 0) d_66_7"
proof -
  have "is_number d_133_3" "is_number d_66_7" "num_le (whole 0) d_133_3" "num_le (whole 0) d_66_7"
    by (simp_all add: d_133_3_def d_66_7_def round_133_3 round_66_7 keep_133_3
        keep_66_7 whole_def)
  moreover have "move_twice abc_heap abc_anim d_133_3 d_66_7 =
     Some (Inr (abc_anim\<lparr>frame := 2, elapsedMillis := Finite (1 / 2 ^ 46)\<rparr>))"
    by (simp only: move_twice_def move_133_3 option.case sum.case move_66_7) simp
  moreover have "move abc_heap abc_anim (num_add d_133_3 d_66_7) =
     Some (Inr (abc_anim\<lparr>frame := 1, elapsedMillis := whole 100\<rparr>))"
    by (simp add: add_133_3_66_7 move_200)
  ultimately show ?thesis by simp
qed




section \<open>The camera\<close>

lemma wrap_int32:
  fixes n :: int
  assumes "- (2 ^ 31) \<le> n" and "n < 2 ^ 31"
  shows "(let m = n mod 2 ^ 32 in if m \<ge> 2 ^ 31 then m - 2 ^ 32 else m) = n"
proof (cases "0 \<le> n")
  case True
  with assms have "n mod 2 ^ 32 = n" by simp
  with assms show ?thesis by (simp add: Let_def)
next
  case False
  have "n mod 2 ^ 32 = (n + 2 ^ 32) mod 2 ^ 32" by simp
  also have "\<dots> = n + 2 ^ 32"
  proof (rule mod_pos_pos_trivial)
    show "0 \<le> n + 2 ^ 32" using assms by simp
    show "n + 2 ^ 32 < 2 ^ 32" using False by simp
  qed
  finally show ?thesis using assms False by (simp add: Let_def)
qed

lemma toInt32_truncates:
  assumes "\<bar>v\<bar> < 2 ^ 31"
  shows "toInt32 v = (if v < 0 then \<lceil>v\<rceil> else \<lfloor>v\<rfloor>)"
proof (cases "v < 0")
  case True
  have "- (2 ^ 31) \<le> \<lceil>v\<rceil>"
    using assms by (simp add: le_ceiling_iff abs_less_iff) 
  moreover have "\<lceil>v\<rceil> < 2 ^ 31"
    using True by (simp add: ceiling_less_iff)
  ultimately have "(let m = \<lceil>v\<rceil> mod 2 ^ 32 in if m \<ge> 2 ^ 31 then m - 2 ^ 32 else m) = \<lceil>v\<rceil>"
    by (rule wrap_int32)
  with True show ?thesis by (simp add: toInt32_def ceiling_def)
next
  case False
  have "- (2 ^ 31) \<le> \<lfloor>v\<rfloor>"
    using False by (simp add: le_floor_iff)
  moreover have "\<lfloor>v\<rfloor> < 2 ^ 31"
    using assms by (simp add: floor_less_iff abs_less_iff)
  ultimately have "(let m = \<lfloor>v\<rfloor> mod 2 ^ 32 in if m \<ge> 2 ^ 31 then m - 2 ^ 32 else m) = \<lfloor>v\<rfloor>"
    by (rule wrap_int32)
  with False show ?thesis by (simp add: toInt32_def)
qed

lemma truncate_is_floor:
  fixes v :: real
  assumes "0 \<le> v \<or> v \<in> \<int>"
  shows "(if v < 0 then \<lceil>v\<rceil> else \<lfloor>v\<rfloor>) = \<lfloor>v\<rfloor>"
  using assms by (auto elim: Ints_cases)

text \<open>
  Claim C3, amended. For a camera whose \<open>x\<close> and \<open>y\<close> are below \<open>2 ^ 31\<close> in absolute value,
  \<^verbatim>\<open>draw\<close> translates the context by \<open>(- trunc x, - trunc y)\<close>, where \<open>trunc\<close> drops the
  fraction towards zero (the ceiling of a negative number). That is \<open>(- floor x, - floor y)\<close>
  when each coordinate is non-negative or integral.
\<close>

theorem Camera_draw_truncates:
  assumes "\<bar>cam_x this\<bar> < 2 ^ 31" and "\<bar>cam_y this\<bar> < 2 ^ 31"
  shows "Camera_draw this ctx =
           translate ctx (- of_int (if cam_x this < 0 then \<lceil>cam_x this\<rceil> else \<lfloor>cam_x this\<rfloor>))
                         (- of_int (if cam_y this < 0 then \<lceil>cam_y this\<rceil> else \<lfloor>cam_y this\<rfloor>)) \<and>
         ((0 \<le> cam_x this \<or> cam_x this \<in> \<int>) \<and> (0 \<le> cam_y this \<or> cam_y this \<in> \<int>) \<longrightarrow>
            Camera_draw this ctx =
              translate ctx (- of_int \<lfloor>cam_x this\<rfloor>) (- of_int \<lfloor>cam_y this\<rfloor>))"
proof (intro conjI impI)
  show trunc: "Camera_draw this ctx =
           translate ctx (- of_int (if cam_x this < 0 then \<lceil>cam_x this\<rceil> else \<lfloor>cam_x this\<rfloor>))
                         (- of_int (if cam_y this < 0 then \<lceil>cam_y this\<rceil> else \<lfloor>cam_y this\<rfloor>))"
    unfolding Camera_draw_def toInt32_truncates [OF assms(1)] toInt32_truncates [OF assms(2)] ..
  assume "(0 \<le> cam_x this \<or> cam_x this \<in> \<int>) \<and> (0 \<le> cam_y this \<or> cam_y this \<in> \<int>)"
  then show "Camera_draw this ctx =
      translate ctx (- of_int \<lfloor>cam_x this\<rfloor>) (- of_int \<lfloor>cam_y this\<rfloor>)"
    unfolding trunc by (simp only: truncate_is_floor)
qed

theorem Camera_draw_truncates_witness:
  "\<bar>cam_x wide_camera\<bar> < 2 ^ 31 \<and> \<bar>cam_y wide_camera\<bar> < 2 ^ 31 \<and>
   (0 \<le> cam_x wide_camera \<or> cam_x wide_camera \<in> \<int>) \<and>
   (0 \<le> cam_y wide_camera \<or> cam_y wide_camera \<in> \<int>) \<and>
   Camera_draw wide_camera blank_context =
     \<lparr>origin_x = - 50, origin_y = 20, state_stack = []\<rparr>"
proof -
  have x: "\<bar>cam_x wide_camera\<bar> < 2 ^ 31" and y: "\<bar>cam_y wide_camera\<bar> < 2 ^ 31"
    by (simp_all add: wide_camera_def)
  have i: "cam_y wide_camera \<in> \<int>"
    by (simp add: wide_camera_def)
  from Camera_draw_truncates [OF x y, of blank_context] x y i show ?thesis
    by (simp add: wide_camera_def blank_context_def translate_def)
qed

text \<open>
  At \<open>x = -1.5\<close> the context moves by \<open>1\<close>, which is \<open>- trunc x\<close>, where \<open>- floor x\<close> is \<open>2\<close>.
\<close>

theorem Camera_draw_floor_counterexample:
  "origin_x (Camera_draw skew_camera blank_context) = 1 \<and>
   origin_x (translate blank_context (- of_int \<lfloor>cam_x skew_camera\<rfloor>)
                                     (- of_int \<lfloor>cam_y skew_camera\<rfloor>)) = 2"
  by (simp add: Camera_draw_def toInt32_def translate_def skew_camera_def blank_context_def)

text \<open>
  Claim C2, amended. \<^verbatim>\<open>drawAbsolute\<close> saves the context state before it translates and
  calls the callback. When the callback returns with the state stack as it found it, the
  context is back in the state it had before the call. When the callback throws,
  \<^verbatim>\<open>drawAbsolute\<close> is left with the exception and the context as the callback left it:
  \<^verbatim>\<open>restore\<close> is not called, and the saved state stays on the stack.
\<close>

theorem drawAbsolute_restores_on_return:
  assumes "drawFunc (translate (save ctx) (of_int (toInt32 (cam_x this)))
                                        (of_int (toInt32 (cam_y this)))) = (r, ctx3)"
  shows "(r = Returned \<and> state_stack ctx3 = (origin_x ctx, origin_y ctx) # state_stack ctx \<longrightarrow>
            drawAbsolute this ctx drawFunc = (Returned, ctx)) \<and>
         (r = Thrown \<longrightarrow>
            drawAbsolute this ctx drawFunc = (Thrown, ctx3) \<and>
            (state_stack ctx3 = (origin_x ctx, origin_y ctx) # state_stack ctx \<longrightarrow> ctx3 \<noteq> ctx))"
  using assms by (auto simp: drawAbsolute_def Let_def restore_def)

theorem drawAbsolute_restores_on_return_witness:
  "plain_drawFunc (translate (save blank_context) (of_int (toInt32 (cam_x wide_camera)))
       (of_int (toInt32 (cam_y wide_camera)))) =
     (Returned, \<lparr>origin_x = 53, origin_y = - 16, state_stack = [(0, 0)]\<rparr>) \<and>
   drawAbsolute wide_camera blank_context plain_drawFunc = (Returned, blank_context) \<and>
   failing_drawFunc (translate (save blank_context) (of_int (toInt32 (cam_x wide_camera)))
       (of_int (toInt32 (cam_y wide_camera)))) =
     (Thrown, \<lparr>origin_x = 50, origin_y = - 20, state_stack = [(0, 0)]\<rparr>) \<and>
   drawAbsolute wide_camera blank_context failing_drawFunc =
     (Thrown, \<lparr>origin_x = 50, origin_y = - 20, state_stack = [(0, 0)]\<rparr>)"
proof -
  have t: "toInt32 (cam_x wide_camera) = 50" "toInt32 (cam_y wide_camera) = - 20"
    by (simp_all add: toInt32_def wide_camera_def)
  have c: "plain_drawFunc (translate (save blank_context) (of_int (toInt32 (cam_x wide_camera)))
       (of_int (toInt32 (cam_y wide_camera)))) =
     (Returned, \<lparr>origin_x = 53, origin_y = - 16, state_stack = [(0, 0)]\<rparr>)"
    by (simp add: t plain_drawFunc_def translate_def save_def blank_context_def)
  have e: "failing_drawFunc (translate (save blank_context)
       (of_int (toInt32 (cam_x wide_camera))) (of_int (toInt32 (cam_y wide_camera)))) =
     (Thrown, \<lparr>origin_x = 50, origin_y = - 20, state_stack = [(0, 0)]\<rparr>)"
    by (simp add: t failing_drawFunc_def translate_def save_def blank_context_def)
  from drawAbsolute_restores_on_return
      [where drawFunc = plain_drawFunc and ctx = blank_context and this = wide_camera, OF c]
    drawAbsolute_restores_on_return
      [where drawFunc = failing_drawFunc and ctx = blank_context and this = wide_camera, OF e]
    c e
  show ?thesis
    by (simp add: blank_context_def)
qed

text \<open>
  A callback that throws: the context stays translated by \<open>(50, -20)\<close>, with the saved state
  still on its stack.
\<close>

theorem drawAbsolute_throw_counterexample:
  "drawAbsolute wide_camera blank_context failing_drawFunc =
     (Thrown, \<lparr>origin_x = 50, origin_y = - 20, state_stack = [(0, 0)]\<rparr>) \<and>
   \<lparr>origin_x = 50, origin_y = - 20, state_stack = [(0, 0)]\<rparr> \<noteq> blank_context"
  by (simp add: drawAbsolute_def Let_def failing_drawFunc_def translate_def save_def
      toInt32_def wide_camera_def blank_context_def)

section \<open>Copies and transforms\<close>

lemma frames_loop_map:
  "frames_loop f i fs = take i fs @ map (\<lambda>fr. fr\<lparr>img := f (img fr)\<rparr>) (drop i fs)"
proof (induction f i fs rule: frames_loop.induct)
  case (1 f i fs)
  show ?case
  proof (cases "i < length fs")
    case True
    let ?g = "\<lambda>fr. fr\<lparr>img := f (img fr)\<rparr>"
    let ?fs' = "fs[i := ?g (fs ! i)]"
    have "frames_loop f i fs = frames_loop f (i + 1) ?fs'"
      using True by (subst frames_loop.simps) simp
    also have "\<dots> = take (i + 1) ?fs' @ map ?g (drop (i + 1) ?fs')"
      using 1 True by simp
    also have "take (i + 1) ?fs' = take i fs @ [?g (fs ! i)]"
      using True by (simp add: take_Suc_conv_app_nth)
    also have "drop (i + 1) ?fs' = drop (i + 1) fs"
      by simp
    finally show ?thesis
      using True by (simp add: Cons_nth_drop_Suc [symmetric])
  next
    case False
    then show ?thesis by (subst frames_loop.simps) simp
  qed
qed

lemma frames_loop_all:
  "frames_loop f 0 fs = map (\<lambda>fr. fr\<lparr>img := f (img fr)\<rparr>) fs"
  by (simp add: frames_loop_map)

lemma current_frame_flipped:
  assumes "frames b = frames a" and "current_frame h b = Some f"
  shows "current_frame (fst (flipHorizontally g h a)) b = Some (f\<lparr>img := g (img f)\<rparr>)"
  using assms
  by (auto simp: flipHorizontally_def current_frame_def frames_loop_all split: if_splits)

lemma animation_fields:
  "\<lparr>frames = frames a, frame = frame a, elapsedMillis = elapsedMillis a,
    repeatAt = repeatAt a, width = width a, height = height a\<rparr> = a"
  by (cases a) simp

lemma copy_result:
  assumes "this \<noteq> next_obj h"
  shows "copy h this =
     (h\<lparr>arrays := (arrays h)(next_ref h := []), next_ref := Suc (next_ref h),
        objects := (objects h)(next_obj h := objects h this),
        next_obj := Suc (next_obj h)\<rparr>,
      next_obj h)"
  using assms by (simp add: copy_def Animation_def put_def animation_fields)

text \<open>
  Claim C7. For an Animation of the store, \<^verbatim>\<open>copy\<close> returns a new object: its reference was
  not in use, and the objects and arrays that were are as before. The new object's
  \<^verbatim>\<open>frames\<close> is the same array reference as the original's, and its \<^verbatim>\<open>frame\<close>,
  \<^verbatim>\<open>elapsedMillis\<close>, \<^verbatim>\<open>repeatAt\<close>, \<^verbatim>\<open>width\<close> and \<^verbatim>\<open>height\<close> are the original's
  numbers. Whatever is then written to the fields of one of the two objects leaves the
  fields of the other as they were. \<^verbatim>\<open>flipHorizontally\<close> on the original leaves the fields
  of both alone and writes into the shared array: the copy, which drew the image of the
  original's current frame before, draws the flipped image afterwards.
\<close>

theorem copy_shares_frames:
  assumes "this < next_obj h" and "frames (objects h this) < next_ref h"
    and "copy h this = (h1, dup)"
    and "flipHorizontally flipBufferHorizontally h1 (objects h1 this) = (h2, this')"
  shows "dup = next_obj h \<and> dup \<noteq> this \<and> next_obj h1 = Suc dup \<and>
         (\<forall>r. r < next_obj h \<longrightarrow> objects h1 r = objects h r) \<and>
         (\<forall>r. r < next_ref h \<longrightarrow> arrays h1 r = arrays h r) \<and>
         frames (objects h1 dup) = frames (objects h this) \<and>
         frame (objects h1 dup) = frame (objects h this) \<and>
         elapsedMillis (objects h1 dup) = elapsedMillis (objects h this) \<and>
         repeatAt (objects h1 dup) = repeatAt (objects h this) \<and>
         width (objects h1 dup) = width (objects h this) \<and>
         height (objects h1 dup) = height (objects h this) \<and>
         (\<forall>v. objects (put h1 this v) dup = objects h1 dup \<and>
              objects (put h1 dup v) this = objects h1 this) \<and>
         this' = objects h1 this \<and> objects h2 = objects h1 \<and>
         (\<forall>f. current_frame h (objects h this) = Some f \<longrightarrow>
            draw h1 (objects h1 dup) drawImage ctx px py = Inr (drawImage (img f) px py ctx) \<and>
            draw h2 (objects h2 dup) drawImage ctx px py =
              Inr (drawImage (flipBufferHorizontally (img f)) px py ctx))"
proof -
  from assms(1) have ne: "this \<noteq> next_obj h" by simp
  let ?H = "h\<lparr>arrays := (arrays h)(next_ref h := []), next_ref := Suc (next_ref h),
        objects := (objects h)(next_obj h := objects h this),
        next_obj := Suc (next_obj h)\<rparr>"
  have "(h1, dup) = (?H, next_obj h)"
    unfolding assms(3) [symmetric] using ne by (rule copy_result)
  then have h1: "h1 = ?H" and dup: "dup = next_obj h" by simp_all
  have same: "objects h1 dup = objects h this" and orig: "objects h1 this = objects h this"
    using ne by (simp_all add: h1 dup)
  have arr: "arrays h1 (frames (objects h this)) = arrays h (frames (objects h this))"
    using assms(2) by (simp add: h1)
  from assms(4) have this': "this' = objects h1 this" and objs: "objects h2 = objects h1"
    and h2: "h2 = fst (flipHorizontally flipBufferHorizontally h1 (objects h1 this))"
    by (auto simp: flipHorizontally_def)
  have draws: "draw h1 (objects h1 dup) drawImage ctx px py = Inr (drawImage (img f) px py ctx) \<and>
        draw h2 (objects h2 dup) drawImage ctx px py =
          Inr (drawImage (flipBufferHorizontally (img f)) px py ctx)"
    if "current_frame h (objects h this) = Some f" for f
  proof -
    from that arr have c1: "current_frame h1 (objects h1 dup) = Some f"
      by (auto simp: current_frame_def same split: if_splits)
    have "frames (objects h1 dup) = frames (objects h1 this)"
      by (simp add: same orig)
    from current_frame_flipped [OF this c1, of flipBufferHorizontally]
    show ?thesis using c1 by (simp add: draw_def h2 [symmetric] objs)
  qed
  have "dup \<noteq> this" using ne dup by simp
  moreover have "\<forall>v. objects (put h1 this v) dup = objects h1 dup \<and>
              objects (put h1 dup v) this = objects h1 this"
    using \<open>dup \<noteq> this\<close> by (simp add: put_def)
  moreover have "\<forall>r. r < next_obj h \<longrightarrow> objects h1 r = objects h r"
    by (simp add: h1)
  moreover have "\<forall>r. r < next_ref h \<longrightarrow> arrays h1 r = arrays h r"
    by (simp add: h1)
  moreover have "next_obj h1 = Suc dup" by (simp add: h1 dup)
  ultimately show ?thesis
    using dup same this' objs draws by simp
qed

theorem copy_shares_frames_witness:
  "(0::nat) < next_obj abc_heap \<and> frames (objects abc_heap 0) < next_ref abc_heap \<and>
   copy abc_heap 0 = (fst (copy abc_heap 0), next_obj abc_heap) \<and>
   next_obj abc_heap \<noteq> 0 \<and>
   frames (objects (fst (copy abc_heap 0)) (next_obj abc_heap)) = frames (objects abc_heap 0) \<and>
   objects (put (fst (copy abc_heap 0)) 0 (abc_anim\<lparr>frame := 2\<rparr>)) (next_obj abc_heap) =
     objects (fst (copy abc_heap 0)) (next_obj abc_heap) \<and>
   current_frame abc_heap (objects abc_heap 0) = Some \<lparr>img = ''A'', time = whole 100\<rparr> \<and>
   draw (fst (flipHorizontally mark_flipped (fst (copy abc_heap 0))
               (objects (fst (copy abc_heap 0)) 0)))
        (objects (fst (flipHorizontally mark_flipped (fst (copy abc_heap 0))
               (objects (fst (copy abc_heap 0)) 0))) (next_obj abc_heap))
        log_drawImage [] 3 4 =
     Inr [(''flipped A'', 3, 4)]"
proof -
  let ?h1 = "fst (copy abc_heap 0)"
  let ?h2 = "fst (flipHorizontally mark_flipped ?h1 (objects ?h1 0))"
  have a: "(0::nat) < next_obj abc_heap" and b: "frames (objects abc_heap 0) < next_ref abc_heap"
    by (simp_all add: abc_heap_def abc_anim_def)
  have c: "copy abc_heap 0 = (?h1, next_obj abc_heap)"
    using a by (simp add: copy_result)
  have f: "flipHorizontally mark_flipped ?h1 (objects ?h1 0) = (?h2, objects ?h1 0)"
    by (simp add: flipHorizontally_def)
  have cf: "current_frame abc_heap (objects abc_heap 0) = Some \<lparr>img = ''A'', time = whole 100\<rparr>"
    by (simp add: current_frame_def abc_heap_def abc_anim_def)
  note t = copy_shares_frames [OF a b c f, of log_drawImage "[]" 3 4]
  from t have "next_obj abc_heap \<noteq> 0" by blast
  moreover from t have "frames (objects ?h1 (next_obj abc_heap)) = frames (objects abc_heap 0)"
    by blast
  moreover from t have "objects (put ?h1 0 (abc_anim\<lparr>frame := 2\<rparr>)) (next_obj abc_heap) =
     objects ?h1 (next_obj abc_heap)"
    by blast
  moreover from t cf have "draw ?h2 (objects ?h2 (next_obj abc_heap)) log_drawImage [] 3 4 =
     Inr (log_drawImage (mark_flipped (img \<lparr>img = ''A'', time = whole 100\<rparr>)) 3 4 [])"
    by blast
  ultimately show ?thesis
    using a b c cf by (simp add: log_drawImage_def mark_flipped_def)
qed

text \<open>
  Claim C9. \<^verbatim>\<open>rotateClockwise\<close> swaps \<^verbatim>\<open>width\<close> and \<^verbatim>\<open>height\<close> once, whatever the
  frames are, and so does \<^verbatim>\<open>rotateCounterclockwise\<close>; one after the other gives back the
  original \<^verbatim>\<open>width\<close> and \<^verbatim>\<open>height\<close>.
\<close>

theorem rotate_roundtrip:
  assumes "rotateClockwise buffer_rotateClockwise h a = (h1, a1)"
    and "rotateCounterclockwise buffer_rotateCounterclockwise h1 a1 = (h2, a2)"
  shows "width a1 = height a \<and> height a1 = width a \<and>
         width a2 = height a1 \<and> height a2 = width a1 \<and>
         width a2 = width a \<and> height a2 = height a"
  using assms by (auto simp: rotateClockwise_def rotateCounterclockwise_def Let_def)

theorem rotate_roundtrip_witness:
  "rotateClockwise mark_flipped abc_heap abc_anim =
     (fst (rotateClockwise mark_flipped abc_heap abc_anim), abc_anim\<lparr>width := 4, height := 8\<rparr>) \<and>
   rotateCounterclockwise mark_flipped (fst (rotateClockwise mark_flipped abc_heap abc_anim))
       (abc_anim\<lparr>width := 4, height := 8\<rparr>) =
     (fst (rotateCounterclockwise mark_flipped
            (fst (rotateClockwise mark_flipped abc_heap abc_anim))
            (abc_anim\<lparr>width := 4, height := 8\<rparr>)), abc_anim) \<and>
   width abc_anim = 8 \<and> height abc_anim = 4"
proof -
  have cw: "rotateClockwise mark_flipped abc_heap abc_anim =
     (fst (rotateClockwise mark_flipped abc_heap abc_anim), abc_anim\<lparr>width := 4, height := 8\<rparr>)"
    by (simp add: rotateClockwise_def Let_def abc_anim_def)
  have ccw: "rotateCounterclockwise mark_flipped
       (fst (rotateClockwise mark_flipped abc_heap abc_anim))
       (abc_anim\<lparr>width := 4, height := 8\<rparr>) =
     (fst (rotateCounterclockwise mark_flipped
            (fst (rotateClockwise mark_flipped abc_heap abc_anim))
            (abc_anim\<lparr>width := 4, height := 8\<rparr>)), abc_anim)"
    by (simp add: rotateCounterclockwise_def Let_def abc_anim_def)
  from rotate_roundtrip [OF cw ccw] cw ccw show ?thesis
    by simp
qed

end
